theory Spec2Isabelle
  imports Main
begin

section \<open>Python string primitives\<close>

text \<open>
  A Python \<open>str\<close> is modelled as a \<open>string\<close> whose characters are the code points
  below 256. On that range \<open>\d\<close> matches exactly the ten ASCII digits, \<open>str.strip()\<close>
  removes the twelve characters for which \<open>str.isspace()\<close> holds, and \<open>str.lower()\<close>
  maps \<open>A..Z\<close> and the Latin-1 capitals \<open>0xC0..0xDE\<close> (without \<open>0xD7\<close>) 32 places up.
\<close>

abbreviation nl :: char where
  "nl \<equiv> CHR 0x0A"

definition isspace :: "char \<Rightarrow> bool" where
  "isspace c = (c \<in> set [CHR 0x09, CHR 0x0A, CHR 0x0B, CHR 0x0C, CHR 0x0D,
                          CHR 0x1C, CHR 0x1D, CHR 0x1E, CHR 0x1F, CHR 0x20,
                          CHR 0x85, CHR 0xA0])"

definition isdigit :: "char \<Rightarrow> bool" where
  "isdigit c = (c \<in> set ''0123456789'')"

definition lower_char :: "char \<Rightarrow> char" where
  "lower_char c =
     (let n = (of_char c :: nat)
      in if (65 \<le> n \<and> n \<le> 90) \<or> (192 \<le> n \<and> n \<le> 222 \<and> n \<noteq> 215)
         then char_of (n + 32) else c)"

definition lower :: "string \<Rightarrow> string" where
  "lower s = map lower_char s"

text \<open>\<open>s.strip()\<close>: whitespace removed at both ends.\<close>

definition lstrip :: "string \<Rightarrow> string" where
  "lstrip s = dropWhile isspace s"

definition rstrip :: "string \<Rightarrow> string" where
  "rstrip s = rev (dropWhile isspace (rev s))"

definition strip :: "string \<Rightarrow> string" where
  "strip s = rstrip (lstrip s)"

text \<open>\<open>s.startswith(p)\<close> and \<open>sub in s\<close>.\<close>

definition startswith :: "string \<Rightarrow> string \<Rightarrow> bool" where
  "startswith s p = (take (length p) s = p)"

fun contains :: "string \<Rightarrow> string \<Rightarrow> bool" where
  "contains [] sub = (sub = [])"
| "contains (c # cs) sub = (startswith (c # cs) sub \<or> contains cs sub)"

text \<open>\<open>s.split('\n')\<close>: the pieces between line feeds; there is always at least one.\<close>

fun split_from :: "string \<Rightarrow> string \<Rightarrow> string list" where
  "split_from cur [] = [cur]"
| "split_from cur (c # cs) =
     (if c = nl then cur # split_from [] cs else split_from (cur @ [c]) cs)"

definition split_nl :: "string \<Rightarrow> string list" where
  "split_nl s = split_from [] s"

text \<open>\<open>'\n'.join(xs)\<close>.\<close>

fun join_nl :: "string list \<Rightarrow> string" where
  "join_nl [] = []"
| "join_nl [x] = x"
| "join_nl (x # y # ys) = x @ nl # join_nl (y # ys)"

text \<open>
  \<open>s.replace(old, '')\<close> for a non-empty \<open>old\<close>: the occurrences of \<open>old\<close> are removed
  from left to right, without overlap.
\<close>

fun remove_all :: "string \<Rightarrow> string \<Rightarrow> string" where
  "remove_all old [] = []"
| "remove_all old (c # cs) =
     (if old \<noteq> [] \<and> startswith (c # cs) old
      then remove_all old (drop (length old - 1) cs)
      else c # remove_all old cs)"

section \<open>Splitting the generated text into question blocks\<close>

text \<open>
  \<open>re.split(r'\n\d+\.|Question \d+:', text)\<close>. At one position at most one alternative
  can match, since the first starts with a line feed and the second with \<open>Q\<close>. The
  greedy \<open>\d+\<close> takes the whole run of digits; giving digits back never helps, because
  the character after a shorter run is a digit and not the closing \<open>.\<close> or \<open>:\<close>.
  \<open>match_delim s\<close> is the length of the match at the start of \<open>s\<close>.
\<close>

definition digits_then :: "char \<Rightarrow> string \<Rightarrow> nat option" where
  "digits_then close s =
     (let ds = takeWhile isdigit s; rest = dropWhile isdigit s
      in if ds \<noteq> [] \<and> rest \<noteq> [] \<and> hd rest = close then Some (length ds + 1) else None)"

definition match_delim :: "string \<Rightarrow> nat option" where
  "match_delim s =
     (if startswith s [nl] then map_option (\<lambda>n. 1 + n) (digits_then (CHR ''.'') (drop 1 s))
      else if startswith s ''Question '' then map_option (\<lambda>n. 9 + n) (digits_then (CHR '':'') (drop 9 s))
      else None)"

fun re_split_from :: "string \<Rightarrow> string \<Rightarrow> string list" where
  "re_split_from cur [] = [cur]"
| "re_split_from cur (c # cs) =
     (case match_delim (c # cs) of
        Some n \<Rightarrow> cur # re_split_from [] (drop (n - 1) cs)
      | None \<Rightarrow> re_split_from (cur @ [c]) cs)"

definition re_split :: "string \<Rightarrow> string list" where
  "re_split text = re_split_from [] text"

section \<open>Questions\<close>

text \<open>
  The dictionaries built by \<open>parse_generated_questions\<close>: the constructor is the value
  of the key \<open>'type'\<close>, the fields are the other keys.
\<close>

datatype question =
    Multiple_choice (question: string) (options: "string list") (correct_answer: string)
  | True_false (question: string) (correct_answer: string)
  | Short_answer (question: string) (sample_answer: string)
  | Open_ended (question: string) (sample_answer: string)

datatype py_error = IndexError | NameError

text \<open>\<open>xs[0]\<close> raises \<open>IndexError\<close> on an empty list.\<close>

definition index0 :: "'a list \<Rightarrow> py_error + 'a" where
  "index0 xs = (case xs of [] \<Rightarrow> Inl IndexError | x # _ \<Rightarrow> Inr x)"

text \<open>Truthiness of a variable that is \<open>None\<close> or a string.\<close>

definition truthy :: "string option \<Rightarrow> bool" where
  "truthy v = (case v of None \<Rightarrow> False | Some s \<Rightarrow> s \<noteq> [])"

subsection \<open>Multiple choice\<close>

definition is_option_line :: "string \<Rightarrow> bool" where
  "is_option_line line =
     (\<exists>m \<in> set [''a)'', ''b)'', ''c)'', ''d)'', ''A)'', ''B)'', ''C)'', ''D)''].
        startswith (strip line) m)"

text \<open>\<open>line.strip()[2:].strip()\<close>\<close>

definition option_text :: "string \<Rightarrow> string" where
  "option_text line = strip (drop 2 (strip line))"

text \<open>\<open>'*' in option or 'correct' in option.lower()\<close>\<close>

definition is_marked :: "string \<Rightarrow> bool" where
  "is_marked option = (CHR ''*'' \<in> set option \<or> contains (lower option) ''correct'')"

text \<open>\<open>option.replace('*', '').replace('(correct)', '').strip()\<close>\<close>

definition clean_option :: "string \<Rightarrow> string" where
  "clean_option option = strip (remove_all ''(correct)'' (remove_all ''*'' option))"

text \<open>The loop \<open>for line in lines[1:]\<close> on the pair \<open>(options, correct_answer)\<close>.\<close>

fun mc_lines :: "string list \<Rightarrow> string list \<times> string option \<Rightarrow> string list \<times> string option" where
  "mc_lines [] st = st"
| "mc_lines (line # rest) (opts, ca) =
     (if is_option_line line
      then let option = option_text line;
               ca' = (if is_marked option then Some (clean_option option) else ca)
           in mc_lines rest (opts @ [clean_option option], ca')
      else mc_lines rest (opts, ca))"

definition mc_block :: "string \<Rightarrow> py_error + question option" where
  "mc_block block =
     (let lines = split_nl (strip block)
      in case index0 lines of
           Inl e \<Rightarrow> Inl e
         | Inr l0 \<Rightarrow>
             let q = strip l0;
                 (opts, ca) = mc_lines (drop 1 lines) ([], None)
             in if q \<noteq> [] \<and> opts \<noteq> [] \<and> truthy ca
                then Inr (Some (Multiple_choice q opts (the ca)))
                else Inr None)"

subsection \<open>True/False\<close>

text \<open>\<open>'Answer:' in line or 'Correct:' in line\<close>\<close>

definition has_answer_label :: "string \<Rightarrow> bool" where
  "has_answer_label line = (contains line ''Answer:'' \<or> contains line ''Correct:'')"

text \<open>The loop \<open>for line in lines\<close> on \<open>correct_answer\<close>; it runs over every line of the block.\<close>

fun tf_lines :: "string list \<Rightarrow> string option \<Rightarrow> string option" where
  "tf_lines [] ca = ca"
| "tf_lines (line # rest) ca =
     (if has_answer_label line
      then tf_lines rest (Some (if contains (lower line) ''true'' then ''True'' else ''False''))
      else tf_lines rest ca)"

definition tf_block :: "string \<Rightarrow> py_error + question option" where
  "tf_block block =
     (let lines = split_nl (strip block)
      in case index0 lines of
           Inl e \<Rightarrow> Inl e
         | Inr l0 \<Rightarrow>
             let q = strip l0;
                 ca = tf_lines lines None
             in if q \<noteq> [] \<and> truthy ca
                then Inr (Some (True_false q (the ca)))
                else Inr None)"

subsection \<open>Short answer and open ended\<close>

definition sa_block :: "bool \<Rightarrow> string \<Rightarrow> py_error + question option" where
  "sa_block open_ended block =
     (let lines = split_nl (strip block)
      in case index0 lines of
           Inl e \<Rightarrow> Inl e
         | Inr l0 \<Rightarrow>
             let q = strip l0;
                 sample = strip (join_nl (drop 1 lines))
             in if q \<noteq> []
                then Inr (Some (if open_ended then Open_ended q sample else Short_answer q sample))
                else Inr None)"

subsection \<open>The parser\<close>

text \<open>
  The loop \<open>for block in question_blocks\<close>, the same in the three branches but for its
  body: a blank block is skipped, an exception of the body ends the loop, a block whose
  required fields are there is appended to \<open>questions\<close>.
\<close>

fun for_blocks :: "(string \<Rightarrow> py_error + question option) \<Rightarrow> string list \<Rightarrow> question list
    \<Rightarrow> py_error + question list" where
  "for_blocks body [] questions = Inr questions"
| "for_blocks body (block # rest) questions =
     (if strip block = [] then for_blocks body rest questions
      else case body block of
             Inl e \<Rightarrow> Inl e
           | Inr None \<Rightarrow> for_blocks body rest questions
           | Inr (Some q) \<Rightarrow> for_blocks body rest (questions @ [q]))"

definition parse_generated_questions :: "string \<Rightarrow> string \<Rightarrow> py_error + question list" where
  "parse_generated_questions text question_type =
     (if question_type = ''Multiple Choice'' then for_blocks mc_block (re_split text) []
      else if question_type = ''True/False'' then for_blocks tf_block (re_split text) []
      else if question_type \<in> set [''Short Answer'', ''Open Ended'']
      then for_blocks (sa_block (question_type = ''Open Ended'')) (re_split text) []
      else Inr [])"

section \<open>Lesson sections\<close>

text \<open>
  A Python \<open>dict\<close> keeps its keys in insertion order: assigning to a key that is there
  replaces the value in place, assigning to a new key appends an entry.
\<close>

type_synonym ('k, 'v) dict = "('k \<times> 'v) list"

fun dict_set :: "('k, 'v) dict \<Rightarrow> 'k \<Rightarrow> 'v \<Rightarrow> ('k, 'v) dict" where
  "dict_set [] k v = [(k, v)]"
| "dict_set ((k', v') # m) k v =
     (if k' = k then (k, v) # m else (k', v') # dict_set m k v)"

definition section_labels :: "string list" where
  "section_labels =
     [''Overview:'', ''Learning Objectives:'', ''Required Materials:'',
      ''Preparation Steps:'', ''Lesson Procedure:'',
      ''Extensions and Modifications:'', ''Assessment Criteria:'',
      ''Safety Considerations:'', ''Take-Home Connection:'']"

text \<open>\<open>any(section in line for section in [...])\<close>\<close>

definition is_section_header :: "string \<Rightarrow> bool" where
  "is_section_header line = (\<exists>label \<in> set section_labels. contains line label)"

text \<open>
  The loop \<open>for line in content.split('\n')\<close> on
  \<open>(sections, current_section, current_content)\<close>.
\<close>

fun section_lines :: "string list \<Rightarrow> (string, string) dict \<times> string option \<times> string list
    \<Rightarrow> (string, string) dict \<times> string option \<times> string list" where
  "section_lines [] st = st"
| "section_lines (line # rest) (sections, current_section, current_content) =
     (if is_section_header line
      then section_lines rest
             (if truthy current_section
              then dict_set sections (the current_section) (strip (join_nl current_content))
              else sections,
              Some (strip line), [])
      else if truthy current_section \<and> strip line \<noteq> []
      then section_lines rest (sections, current_section, current_content @ [strip line])
      else section_lines rest (sections, current_section, current_content))"

text \<open>\<open>content\<close> is \<open>None\<close> or a string; \<open>not content\<close> holds for \<open>None\<close> and for \<open>''\<close>.\<close>

definition parse_lesson_sections :: "string option \<Rightarrow> (string, string) dict" where
  "parse_lesson_sections content =
     (if \<not> truthy content then []
      else case section_lines (split_nl (the content)) ([], None, []) of
             (sections, current_section, current_content) \<Rightarrow>
               if truthy current_section \<and> current_content \<noteq> []
               then dict_set sections (the current_section) (strip (join_nl current_content))
               else sections)"

section \<open>Lesson session state\<close>

text \<open>
  A lesson is a dictionary with eight fixed keys; its values are immutable strings and
  numbers. Lessons are objects: two variables may hold the same one, so the session has
  a store of lesson objects and holds addresses into it. \<open>d.copy()\<close> allocates a new
  object with the same values.
\<close>

record lesson =
  timestamp :: string
  grade_level :: string
  subject_area :: string
  specific_topic :: string
  delivery_timeline :: string
  objectives :: string
  materials_budget :: int
  content :: string

record lesson_session =
  store :: "lesson list"
  current_lesson :: "nat option"
  generated_lessons :: "nat list"
  current_view :: string

definition initial_lesson_session :: lesson_session where
  "initial_lesson_session =
     \<lparr>store = [], current_lesson = None, generated_lessons = [], current_view = ''edit''\<rparr>"

definition alloc :: "lesson list \<Rightarrow> lesson \<Rightarrow> lesson list \<times> nat" where
  "alloc h l = (h @ [l], length h)"

text \<open>
  \<open>st.session_state.current_lesson = new_lesson\<close>, then
  \<open>st.session_state.generated_lessons.append(new_lesson.copy())\<close>.
\<close>

definition commit_lesson :: "lesson_session \<Rightarrow> lesson \<Rightarrow> lesson_session" where
  "commit_lesson s new_lesson =
     (case alloc (store s) new_lesson of
        (h1, a) \<Rightarrow>
          (case alloc h1 (h1 ! a) of
             (h2, b) \<Rightarrow>
               s\<lparr>store := h2, current_lesson := Some a,
                 generated_lessons := generated_lessons s @ [b]\<rparr>))"

text \<open>
  The history button \<open>idx\<close> of \<open>enumerate(reversed(generated_lessons))\<close>:
  \<open>current_lesson = lesson.copy()\<close>. There is a button only for an \<open>idx\<close> in range.
\<close>

definition select_history :: "lesson_session \<Rightarrow> nat \<Rightarrow> lesson_session" where
  "select_history s idx =
     (if idx < length (generated_lessons s)
      then case alloc (store s) (store s ! (rev (generated_lessons s) ! idx)) of
             (h1, a) \<Rightarrow> s\<lparr>store := h1, current_lesson := Some a\<rparr>
      else s)"

text \<open>
  One pass of \<open>display_lesson_plan_edit(st.session_state.current_lesson)\<close>. The content
  is parsed once; for every section whose text area differs, and for the section whose
  regenerate button gave a new text, \<open>sections[section] = new\<close> and the content is
  written back into the lesson object itself,
  \<open>lesson_data['content'] = '\n'.join(updated_content)\<close>. \<open>edits\<close> are these sections with
  their new texts; there is an editor only for the sections of the parsed content.
  \<open>main\<close> calls the function when there is a current lesson and the view is \<open>edit\<close>.
\<close>

definition serialize_sections :: "(string, string) dict \<Rightarrow> string" where
  "serialize_sections sections =
     join_nl (concat (map (\<lambda>(s, c). [s, strip c, []]) sections))"

fun write_sections :: "(string \<times> string) list \<Rightarrow> (string, string) dict \<times> lesson
    \<Rightarrow> (string, string) dict \<times> lesson" where
  "write_sections [] st = st"
| "write_sections ((section, new_text) # edits) (sections, lesson_data) =
     (if section \<in> fst ` set sections
      then let sections' = dict_set sections section new_text
           in write_sections edits
                (sections', lesson_data\<lparr>content := serialize_sections sections'\<rparr>)
      else write_sections edits (sections, lesson_data))"

definition edit_sections :: "lesson_session \<Rightarrow> (string \<times> string) list \<Rightarrow> lesson_session" where
  "edit_sections s edits =
     (case current_lesson s of
        None \<Rightarrow> s
      | Some a \<Rightarrow>
          if current_view s = ''edit''
          then let lesson_data = store s ! a;
                   sections = parse_lesson_sections (Some (content lesson_data))
               in s\<lparr>store := (store s)[a := snd (write_sections edits (sections, lesson_data))]\<rparr>
          else s)"

definition set_view :: "lesson_session \<Rightarrow> string \<Rightarrow> lesson_session" where
  "set_view s view_mode = s\<lparr>current_view := lower view_mode\<rparr>"

datatype lesson_event =
    Generate lesson
  | Select nat
  | Edit "(string \<times> string) list"
  | View string

fun lesson_step :: "lesson_session \<Rightarrow> lesson_event \<Rightarrow> lesson_session" where
  "lesson_step s (Generate l) = commit_lesson s l"
| "lesson_step s (Select idx) = select_history s idx"
| "lesson_step s (Edit edits) = edit_sections s edits"
| "lesson_step s (View m) = set_view s m"

text \<open>The lessons of the history, oldest first, as the store has them.\<close>

definition history :: "lesson_session \<Rightarrow> lesson list" where
  "history s = map (\<lambda>a. store s ! a) (generated_lessons s)"

section \<open>Quiz session state\<close>

record quiz_state =
  generated_questions :: "question list"
  current_score :: int
  total_questions :: int
  answered_questions :: "int set"
  question_prompt :: string

definition initial_quiz_state :: quiz_state where
  "initial_quiz_state =
     \<lparr>generated_questions = [], current_score = 0, total_questions = 0,
      answered_questions = {}, question_prompt = []\<rparr>"

text \<open>
  \<open>xs[i] = v\<close> for a Python integer \<open>i\<close>: a negative index counts from the end, an
  index out of range raises \<open>IndexError\<close>.
\<close>

definition list_assign :: "'a list \<Rightarrow> int \<Rightarrow> 'a \<Rightarrow> py_error + 'a list" where
  "list_assign xs i v =
     (if 0 \<le> i \<and> i < int (length xs) then Inr (xs[nat i := v])
      else if i < 0 \<and> - int (length xs) \<le> i then Inr (xs[nat (int (length xs) + i) := v])
      else Inl IndexError)"

definition check_answer :: "question \<Rightarrow> string \<Rightarrow> bool option" where
  "check_answer q user_answer =
     (case q of
        Multiple_choice _ _ ca \<Rightarrow> Some (user_answer = ca)
      | True_false _ ca \<Rightarrow> Some (lower user_answer = lower ca)
      | _ \<Rightarrow> None)"

text \<open>
  The handler of the button "Generate Questions". The response of the model is \<open>None\<close>
  when the call raised: the \<open>except\<close> clause reports the error and the state is as before.
\<close>

definition load_questions :: "quiz_state \<Rightarrow> string option \<Rightarrow> string \<Rightarrow> quiz_state" where
  "load_questions st response question_type =
     (case response of
        None \<Rightarrow> st
      | Some text \<Rightarrow>
          (case parse_generated_questions text question_type of
             Inl e \<Rightarrow> st
           | Inr qs \<Rightarrow>
               st\<lparr>generated_questions := qs, current_score := 0,
                  total_questions := int (length qs), answered_questions := {}\<rparr>))"

definition clear_questions :: "quiz_state \<Rightarrow> quiz_state" where
  "clear_questions st =
     st\<lparr>generated_questions := [], current_score := 0, total_questions := 0,
        answered_questions := {}, question_prompt := []\<rparr>"

text \<open>
  Reading a name of the script's module: \<open>NameError\<close> when no assignment to it has run.
\<close>

definition read_name :: "'a option \<Rightarrow> py_error + 'a" where
  "read_name binding = (case binding of None \<Rightarrow> Inl NameError | Some v \<Rightarrow> Inr v)"

text \<open>
  The handler of the refresh button of question \<open>i\<close> on the page "Questions"; \<open>i\<close> comes
  from \<open>enumerate(generated_questions)\<close>, so there is a button only for \<open>i\<close> in range.
  Its \<open>try\<close> block calls \<open>model.generate_content\<close> (line 624). \<open>model\<close> is a name of the
  script's module whose only assignment (line 564) stands under the button "Generate
  Questions". The parameter \<open>model\<close> is \<open>None\<close> when the name is unbound, and otherwise
  holds the response of the call, \<open>None\<close> when the call raises. Every exception of the
  block is reported by the \<open>except\<close> clause, and the state is as before.
\<close>

definition refresh_question ::
    "quiz_state \<Rightarrow> nat \<Rightarrow> string option option \<Rightarrow> string \<Rightarrow> quiz_state" where
  "refresh_question st i model question_type =
     (if \<not> i < length (generated_questions st) then st
      else case read_name model of
        Inl e \<Rightarrow> st
      | Inr None \<Rightarrow> st
      | Inr (Some text) \<Rightarrow>
          (case parse_generated_questions text question_type of
             Inl e \<Rightarrow> st
           | Inr new_questions \<Rightarrow>
               if new_questions = [] then st
               else case list_assign (generated_questions st) (int i) (hd new_questions) of
                      Inl e \<Rightarrow> st
                    | Inr qs \<Rightarrow>
                        if int i \<in> answered_questions st
                        then st\<lparr>generated_questions := qs,
                                answered_questions := answered_questions st - {int i},
                                current_score := max 0 (current_score st - 1)\<rparr>
                        else st\<lparr>generated_questions := qs\<rparr>))"

text \<open>
  The function \<open>regenerate_single_question(question_type, topic_prompt, index)\<close>: the same
  replacement for any integer \<open>index\<close>, the score is left as it is.
\<close>

definition regenerate_single_question :: "quiz_state \<Rightarrow> string option \<Rightarrow> string \<Rightarrow> int \<Rightarrow> quiz_state" where
  "regenerate_single_question st response question_type index =
     (case response of
        None \<Rightarrow> st
      | Some text \<Rightarrow>
          (case parse_generated_questions text question_type of
             Inl e \<Rightarrow> st
           | Inr new_questions \<Rightarrow>
               if new_questions = [] then st
               else case list_assign (generated_questions st) index (hd new_questions) of
                      Inl e \<Rightarrow> st
                    | Inr qs \<Rightarrow>
                        if index \<in> answered_questions st
                        then st\<lparr>generated_questions := qs,
                                answered_questions := answered_questions st - {index}\<rparr>
                        else st\<lparr>generated_questions := qs\<rparr>))"

text \<open>
  The handler of "Submit" of question \<open>i\<close>. The page shows the button for a multiple
  choice or a true/false question, and disables it once \<open>i\<close> is answered.
  \<open>check_answer\<close> gives \<open>None\<close> for the other types, which \<open>if is_correct\<close> takes for false.
\<close>

definition submit_body :: "quiz_state \<Rightarrow> nat \<Rightarrow> question \<Rightarrow> string \<Rightarrow> quiz_state" where
  "submit_body st i q user_answer =
     (let is_correct = check_answer q user_answer
      in (if is_correct = Some True \<and> int i \<notin> answered_questions st
          then st\<lparr>current_score := current_score st + 1\<rparr>
          else st)
         \<lparr>answered_questions := insert (int i) (answered_questions st)\<rparr>)"

definition submit_answer :: "quiz_state \<Rightarrow> nat \<Rightarrow> string \<Rightarrow> quiz_state" where
  "submit_answer st i user_answer =
     (if i < length (generated_questions st) \<and> int i \<notin> answered_questions st
      then case generated_questions st ! i of
             Multiple_choice _ _ _ \<Rightarrow> submit_body st i (generated_questions st ! i) user_answer
           | True_false _ _ \<Rightarrow> submit_body st i (generated_questions st ! i) user_answer
           | _ \<Rightarrow> st
      else st)"

text \<open>
  The handler of "Show Sample Answer" of question \<open>i\<close>, which the page shows for a short
  answer or an open ended question; this button is never disabled.
\<close>

definition show_sample_answer :: "quiz_state \<Rightarrow> nat \<Rightarrow> quiz_state" where
  "show_sample_answer st i =
     (if i < length (generated_questions st)
      then case generated_questions st ! i of
             Short_answer _ _ \<Rightarrow>
               st\<lparr>answered_questions := insert (int i) (answered_questions st)\<rparr>
           | Open_ended _ _ \<Rightarrow>
               st\<lparr>answered_questions := insert (int i) (answered_questions st)\<rparr>
           | _ \<Rightarrow> st
      else st)"

datatype quiz_event =
    Load "string option" string
  | Clear
  | Refresh nat string
  | Submit nat string
  | Show_sample nat

text \<open>
  One run of the script with one button clicked. Streamlit runs the script anew for
  every click, with a new module namespace, and \<open>st.button\<close> is true for the clicked
  button only: in the run of a refresh click the branch of "Generate Questions" is not
  taken, so the refresh handler finds the name \<open>model\<close> unbound.
\<close>

fun quiz_step :: "quiz_state \<Rightarrow> quiz_event \<Rightarrow> quiz_state" where
  "quiz_step st (Load response question_type) = load_questions st response question_type"
| "quiz_step st Clear = clear_questions st"
| "quiz_step st (Refresh i question_type) = refresh_question st i None question_type"
| "quiz_step st (Submit i user_answer) = submit_answer st i user_answer"
| "quiz_step st (Show_sample i) = show_sample_answer st i"

text \<open>\<open>current_score \<le> |answered_indices| \<le> total_questions\<close>\<close>

definition score_invariant :: "quiz_state \<Rightarrow> bool" where
  "score_invariant st =
     (current_score st \<le> int (card (answered_questions st))
      \<and> int (card (answered_questions st)) \<le> total_questions st)"

section \<open>Notions the properties are stated with\<close>

subsection \<open>Blocks of questions\<close>

text \<open>
  The parts of a block: its question line, the lines after it, those of them that start
  with an option marker, and those of the latter whose option text carries an asterisk
  or the word \<open>correct\<close>.
\<close>

definition question_line :: "string \<Rightarrow> string" where
  "question_line block = strip (hd (split_nl (strip block)))"

definition payload_lines :: "string \<Rightarrow> string list" where
  "payload_lines block = drop 1 (split_nl (strip block))"

definition option_lines :: "string \<Rightarrow> string list" where
  "option_lines block = filter is_option_line (payload_lines block)"

definition marked_lines :: "string \<Rightarrow> string list" where
  "marked_lines block = filter (\<lambda>l. is_marked (option_text l)) (option_lines block)"

text \<open>A block that lacks a question text, an option, or a marked option.\<close>

definition mc_lacking :: "string \<Rightarrow> bool" where
  "mc_lacking block =
     (question_line block = [] \<or> option_lines block = [] \<or> marked_lines block = [])"

text \<open>The lines of a block, the question line included, that carry an answer label.\<close>

definition answer_lines :: "string \<Rightarrow> string list" where
  "answer_lines block = filter has_answer_label (split_nl (strip block))"

subsection \<open>Sections\<close>

text \<open>
  The assignments \<open>sections[current_section] = ...\<close> of \<open>parse_lesson_sections\<close>, in the
  order in which the loop and the final flush make them.
\<close>

fun section_flushes :: "string list \<Rightarrow> string option \<Rightarrow> string list \<Rightarrow> (string \<times> string) list" where
  "section_flushes [] cur cc =
     (if truthy cur \<and> cc \<noteq> [] then [(the cur, strip (join_nl cc))] else [])"
| "section_flushes (line # rest) cur cc =
     (if is_section_header line
      then (if truthy cur then [(the cur, strip (join_nl cc))] else [])
           @ section_flushes rest (Some (strip line)) []
      else if truthy cur \<and> strip line \<noteq> []
      then section_flushes rest cur (cc @ [strip line])
      else section_flushes rest cur cc)"

definition dict_of :: "('k \<times> 'v) list \<Rightarrow> ('k, 'v) dict \<Rightarrow> ('k, 'v) dict" where
  "dict_of tr m = foldl (\<lambda>m (k, v). dict_set m k v) m tr"

text \<open>The elements of a list in the order of their first occurrence.\<close>

fun first_occ :: "'a list \<Rightarrow> 'a list" where
  "first_occ [] = []"
| "first_occ (x # xs) = x # filter (\<lambda>y. y \<noteq> x) (first_occ xs)"

text \<open>
  The body of the section that starts before \<open>ls\<close>: the non-empty stripped lines up to
  the next header line.
\<close>

definition section_body :: "string list \<Rightarrow> string list" where
  "section_body ls =
     filter (\<lambda>l. l \<noteq> []) (map strip (takeWhile (\<lambda>l. \<not> is_section_header l) ls))"

subsection \<open>The store of lessons\<close>

text \<open>
  Every address the session holds is allocated, and the current lesson is no object of
  the history.
\<close>

definition store_wf :: "lesson_session \<Rightarrow> bool" where
  "store_wf s =
     ((\<forall>b \<in> set (generated_lessons s). b < length (store s))
      \<and> (\<forall>a. current_lesson s = Some a \<longrightarrow>
             a < length (store s) \<and> a \<notin> set (generated_lessons s)))"

text \<open>The lesson an event commits to the history.\<close>

definition committed :: "lesson_event \<Rightarrow> lesson list" where
  "committed e = (case e of Generate l \<Rightarrow> [l] | _ \<Rightarrow> [])"

subsection \<open>The quiz\<close>

definition quiz_wf :: "quiz_state \<Rightarrow> bool" where
  "quiz_wf st =
     (answered_questions st \<subseteq> {0 ..< int (length (generated_questions st))}
      \<and> total_questions st = int (length (generated_questions st))
      \<and> 0 \<le> current_score st
      \<and> current_score st \<le> int (card (answered_questions st)))"

subsection \<open>Sample inputs\<close>

definition sky :: string where
  "sky = ''Question 1: The sky is blue.'' @ [nl] @ ''Answer: True''"

definition sky_grass :: string where
  "sky_grass = ''Question 1: The sky is blue.'' @ [nl] @ ''Answer: True'' @ [nl]
     @ ''Question 2: Grass is red.'' @ [nl] @ ''Answer: False''"

definition quiz_one_correct :: quiz_state where
  "quiz_one_correct =
     submit_answer (load_questions initial_quiz_state (Some sky) ''True/False'') 0 ''True''"

definition quiz_two_loaded :: quiz_state where
  "quiz_two_loaded = load_questions initial_quiz_state (Some sky_grass) ''True/False''"

definition quiz_first_correct :: quiz_state where
  "quiz_first_correct = submit_answer quiz_two_loaded 0 ''True''"

definition unmarked_block :: string where
  "unmarked_block = '' Capital of UK?'' @ [nl] @ ''a) Paris'' @ [nl] @ ''b) London'' @ [nl]"

definition unmarked_then_marked :: string where
  "unmarked_then_marked =
     ''Question 1:'' @ unmarked_block
     @ ''Question 2: Capital of France?'' @ [nl] @ ''a) *Paris'' @ [nl] @ ''b) Rome''"

definition two_marked :: string where
  "two_marked = ''Capital of UK?'' @ [nl] @ ''a) *Paris'' @ [nl] @ ''b) London (correct)''
     @ [nl] @ ''c) Rome''"

definition two_answers :: string where
  "two_answers = ''The sky is green.'' @ [nl] @ ''Answer: True'' @ [nl] @ ''Correct: False''"

definition answer_in_question :: string where
  "answer_in_question = ''The sky is blue. Answer: True''"

definition overview_twice :: string where
  "overview_twice = ''Lesson Procedure:'' @ [nl] @ ''baz'' @ [nl] @ ''Overview:'' @ [nl] @ ''foo''
     @ [nl] @ ''Overview:'' @ [nl] @ ''bar''"

definition overview_trailing :: string where
  "overview_trailing = ''Overview:'' @ [nl] @ ''foo'' @ [nl] @ ''Overview:''"

definition sample_lesson :: lesson where
  "sample_lesson =
     \<lparr>timestamp = ''2024-01-01 10:00:00'', grade_level = ''5th Grade'',
      subject_area = ''Science'', specific_topic = ''Weather'',
      delivery_timeline = ''1 week'', objectives = ''Observe the sky'',
      materials_budget = 50, content = ''Overview:'' @ [nl] @ ''foo''\<rparr>"

section \<open>Strings and lines\<close>

lemma split_from_not_Nil: "split_from cur s \<noteq> []"
  by (induction s arbitrary: cur) auto

lemma index0_split_nl: "index0 (split_nl s) = Inr (hd (split_nl s))"
  using split_from_not_Nil [of "[]" s]
  by (cases "split_nl s") (auto simp: index0_def split_nl_def)

lemma hd_split_from: "hd (split_from cur s) = cur @ takeWhile (\<lambda>c. c \<noteq> nl) s"
  by (induction s arbitrary: cur) auto

lemma strip_Nil_iff: "strip s = [] \<longleftrightarrow> (\<forall>c \<in> set s. isspace c)"
proof -
  have "strip s = [] \<longleftrightarrow> (\<forall>c \<in> set (dropWhile isspace s). isspace c)"
    by (simp add: strip_def rstrip_def lstrip_def dropWhile_eq_Nil_conv)
  also have "\<dots> \<longleftrightarrow> (\<forall>c \<in> set s. isspace c)"
  proof
    assume a: "\<forall>c \<in> set (dropWhile isspace s). isspace c"
    show "\<forall>c \<in> set s. isspace c"
    proof
      fix c assume "c \<in> set s"
      then have "c \<in> set (takeWhile isspace s) \<or> c \<in> set (dropWhile isspace s)"
        by (metis Un_iff set_append takeWhile_dropWhile_id)
      then show "isspace c" using a by (auto dest: set_takeWhileD)
    qed
  next
    assume "\<forall>c \<in> set s. isspace c"
    then show "\<forall>c \<in> set (dropWhile isspace s). isspace c"
      by (auto dest: set_dropWhileD)
  qed
  finally show ?thesis .
qed

lemma strip_hd_not_space:
  assumes "strip s \<noteq> []"
  shows "\<not> isspace (hd (strip s))"
proof -
  define t where "t = dropWhile isspace s"
  have t: "t \<noteq> []"
    using assms by (simp add: t_def strip_Nil_iff dropWhile_eq_Nil_conv)
  then have x: "\<not> isspace (hd t)" unfolding t_def by (rule hd_dropWhile)
  obtain x xs where txs: "t = x # xs" using t by (cases t) auto
  have "dropWhile isspace (rev xs @ [x]) = dropWhile isspace (rev xs) @ [x]
        \<or> dropWhile isspace (rev xs @ [x]) = [x]"
    using x txs by (auto simp: dropWhile_append)
  then have "hd (rev (dropWhile isspace (rev t))) = x"
    using txs by auto
  then show ?thesis using x txs by (simp add: strip_def rstrip_def lstrip_def t_def)
qed

lemma question_line_not_Nil:
  assumes "strip block \<noteq> []"
  shows "question_line block \<noteq> []"
proof -
  obtain c cs where ccs: "strip block = c # cs" using assms by (cases "strip block") auto
  have c: "\<not> isspace c" using strip_hd_not_space [OF assms] ccs by simp
  then have "c \<noteq> nl" by (auto simp: isspace_def)
  then have "c \<in> set (hd (split_nl (strip block)))"
    by (simp add: ccs split_nl_def hd_split_from)
  then show ?thesis using c by (auto simp: question_line_def strip_Nil_iff)
qed

lemma contains_set: "contains s sub \<Longrightarrow> set sub \<subseteq> set s"
proof (induction s)
  case Nil
  then show ?case by simp
next
  case (Cons c cs)
  from Cons.prems have "startswith (c # cs) sub \<or> contains cs sub" by simp
  then show ?case
  proof
    assume "startswith (c # cs) sub"
    then have "sub = take (length sub) (c # cs)" by (simp add: startswith_def)
    then have "set sub \<subseteq> set (c # cs)" by (metis set_take_subset)
    then show ?thesis .
  next
    assume "contains cs sub"
    then show ?thesis using Cons.IH by auto
  qed
qed

section \<open>The question parser raises nothing\<close>

lemma mc_block_no_error: "\<exists>r. mc_block b = Inr r"
  by (simp add: mc_block_def index0_split_nl Let_def split: prod.splits)

lemma tf_block_no_error: "\<exists>r. tf_block b = Inr r"
  by (simp add: tf_block_def index0_split_nl Let_def)

lemma sa_block_no_error: "\<exists>r. sa_block oe b = Inr r"
  by (simp add: sa_block_def index0_split_nl Let_def)

lemma for_blocks_no_error:
  "(\<And>b. \<exists>r. body b = Inr r) \<Longrightarrow> \<exists>qs. for_blocks body bs acc = Inr qs"
proof (induction bs arbitrary: acc)
  case Nil
  then show ?case by simp
next
  case (Cons b bs)
  obtain r where r: "body b = Inr r" using Cons.prems by blast
  show ?case using Cons.IH [OF Cons.prems] r
    by (cases r) auto
qed

lemma parse_no_error: "\<exists>qs. parse_generated_questions text question_type = Inr qs"
  unfolding parse_generated_questions_def
  using for_blocks_no_error [of mc_block, OF mc_block_no_error]
        for_blocks_no_error [of tf_block, OF tf_block_no_error]
        for_blocks_no_error [of "sa_block (question_type = ''Open Ended'')", OF sa_block_no_error]
  by simp

lemma for_blocks_dropped:
  "(\<And>b. b \<in> set bs \<Longrightarrow> strip b = [] \<or> body b = Inr None) \<Longrightarrow>
   for_blocks body bs acc = Inr acc"
proof (induction bs arbitrary: acc)
  case Nil
  then show ?case by simp
next
  case (Cons b bs)
  have "strip b = [] \<or> body b = Inr None" using Cons.prems by simp
  moreover have "for_blocks body bs acc = Inr acc" using Cons by simp
  ultimately show ?case by auto
qed

lemma for_blocks_filter:
  "(\<And>b. P b \<Longrightarrow> body b = Inr None) \<Longrightarrow>
   for_blocks body (filter (\<lambda>b. \<not> P b) bs) acc = for_blocks body bs acc"
proof (induction bs arbitrary: acc)
  case Nil
  then show ?case by simp
next
  case (Cons b bs)
  show ?case
  proof (cases "P b")
    case True
    then have "body b = Inr None" using Cons.prems by simp
    with True show ?thesis using Cons.IH [OF Cons.prems] by simp
  next
    case False
    then show ?thesis using Cons.IH [OF Cons.prems]
      by (simp split: sum.splits option.splits)
  qed
qed

lemma re_split_from_chars:
  "b \<in> set (re_split_from cur s) \<Longrightarrow> set b \<subseteq> set cur \<union> set s"
proof (induction cur s rule: re_split_from.induct)
  case (1 cur)
  then show ?case by simp
next
  case (2 cur c cs)
  show ?case
  proof (cases "match_delim (c # cs)")
    case None
    with 2 show ?thesis by auto
  next
    case (Some n)
    with 2 have "b = cur \<or> b \<in> set (re_split_from [] (drop (n - 1) cs))" by simp
    then show ?thesis
    proof
      assume "b = cur" then show ?thesis by auto
    next
      assume "b \<in> set (re_split_from [] (drop (n - 1) cs))"
      then have "set b \<subseteq> set (drop (n - 1) cs)" using 2(2) [OF Some] by simp
      then show ?thesis using set_drop_subset [of "n - 1" cs] by auto
    qed
  qed
qed

lemma re_split_blank:
  assumes "strip text = []" and "b \<in> set (re_split text)"
  shows "strip b = []"
  using assms re_split_from_chars [of b "[]" "text"]
  by (auto simp: strip_Nil_iff re_split_def)

lemma parse_all_dropped:
  assumes "\<forall>b \<in> set (re_split text). strip b = []"
  shows "parse_generated_questions text question_type = Inr []"
  unfolding parse_generated_questions_def
  using assms by (simp add: for_blocks_dropped)

section \<open>What a block yields\<close>

lemma mc_lines_eq:
  "mc_lines ls (opts, ca) =
     (opts @ map (\<lambda>l. clean_option (option_text l)) (filter is_option_line ls),
      case filter (\<lambda>l. is_marked (option_text l)) (filter is_option_line ls) of
        [] \<Rightarrow> ca
      | m # ms \<Rightarrow> Some (clean_option (option_text (last (m # ms)))))"
proof (induction ls arbitrary: opts ca)
  case Nil
  then show ?case by simp
next
  case (Cons l ls)
  show ?case
    by (simp add: Cons.IH Let_def split: list.splits)
qed

lemma mc_block_eq:
  "mc_block block =
     Inr (if question_line block \<noteq> [] \<and> marked_lines block \<noteq> []
             \<and> clean_option (option_text (last (marked_lines block))) \<noteq> []
          then Some (Multiple_choice (question_line block)
                       (map (\<lambda>l. clean_option (option_text l)) (option_lines block))
                       (clean_option (option_text (last (marked_lines block)))))
          else None)"
proof -
  have "marked_lines block \<noteq> [] \<Longrightarrow> option_lines block \<noteq> []"
    by (auto simp: marked_lines_def)
  then show ?thesis
    by (cases "marked_lines block")
       (simp_all add: mc_block_def index0_split_nl mc_lines_eq truthy_def question_line_def
        marked_lines_def option_lines_def payload_lines_def Let_def)
qed

lemma mc_lacking_dropped: "mc_lacking block \<Longrightarrow> mc_block block = Inr None"
  by (auto simp: mc_block_eq mc_lacking_def marked_lines_def)

lemma tf_lines_eq:
  "tf_lines ls ca =
     (case filter has_answer_label ls of
        [] \<Rightarrow> ca
      | m # ms \<Rightarrow> Some (if contains (lower (last (m # ms))) ''true'' then ''True'' else ''False''))"
proof (induction ls arbitrary: ca)
  case Nil
  then show ?case by simp
next
  case (Cons l ls)
  show ?case by (simp add: Cons.IH split: list.splits)
qed

text \<open>
  C4: in multiple choice mode a block that lacks a non-empty question text, an option,
  or a marked option yields no question and no error: the result of the parser is the
  one it gives when all such blocks are left out of the input, and it is never an
  exception.
\<close>

theorem mc_lacking_blocks_dropped:
  "(mc_lacking block \<longrightarrow> mc_block block = Inr None)
   \<and> parse_generated_questions text ''Multiple Choice''
       = for_blocks mc_block (filter (\<lambda>b. \<not> mc_lacking b) (re_split text)) []
   \<and> (\<exists>qs. parse_generated_questions text ''Multiple Choice'' = Inr qs)"
  using for_blocks_filter [of mc_lacking mc_block "re_split text" "[]", OF mc_lacking_dropped]
    parse_no_error [of "text" "''Multiple Choice''"]
  by (simp add: parse_generated_questions_def mc_lacking_dropped)

theorem mc_lacking_blocks_dropped_witness:
  "mc_lacking unmarked_block
   \<and> mc_block unmarked_block = Inr None
   \<and> parse_generated_questions unmarked_then_marked ''Multiple Choice''
       = Inr [Multiple_choice ''Capital of France?'' [''Paris'', ''Rome''] ''Paris'']"
proof -
  have lacking: "mc_lacking unmarked_block"
    by code_simp
  have rest: "for_blocks mc_block
      (filter (\<lambda>b. \<not> mc_lacking b) (re_split unmarked_then_marked)) []
      = Inr [Multiple_choice ''Capital of France?'' [''Paris'', ''Rome''] ''Paris'']"
    by code_simp
  show ?thesis
    using mc_lacking_blocks_dropped [of unmarked_block unmarked_then_marked] lacking rest
    by simp
qed

text \<open>
  C9: when a multiple choice block yields a question, some option line of the block is
  marked, and the correct answer of the question is the cleaned text of the last marked
  option line: a later marked option overwrites an earlier one.
\<close>

theorem mc_last_marked_wins:
  assumes "mc_block block = Inr (Some q)"
  shows "marked_lines block \<noteq> []
         \<and> correct_answer q = clean_option (option_text (last (marked_lines block)))"
  using assms by (auto simp: mc_block_eq split: if_splits)

theorem mc_last_marked_wins_witness:
  "mc_block two_marked
     = Inr (Some (Multiple_choice ''Capital of UK?'' [''Paris'', ''London'', ''Rome''] ''London''))
   \<and> marked_lines two_marked = [''a) *Paris'', ''b) London (correct)'']
   \<and> clean_option (option_text (last (marked_lines two_marked))) = ''London''"
proof -
  have yields: "mc_block two_marked
      = Inr (Some (Multiple_choice ''Capital of UK?'' [''Paris'', ''London'', ''Rome''] ''London''))"
    by code_simp
  have marked: "marked_lines two_marked = [''a) *Paris'', ''b) London (correct)'']"
    by code_simp
  show ?thesis
    using mc_last_marked_wins [OF yields] yields marked by simp
qed

text \<open>
  C5, as the code has it: the true/false branch looks for the answer label in every line
  of a non-blank block, the question line included. When no line has the label the
  block yields no question; otherwise it yields a question whose correct answer is
  \<open>True\<close> when the last labelled line contains \<open>true\<close> in any case, and \<open>False\<close> when it
  does not.
\<close>

theorem tf_answer_line_decides:
  assumes "strip block \<noteq> []"
  shows "tf_block block =
     Inr (if answer_lines block = [] then None
          else Some (True_false (question_line block)
                 (if contains (lower (last (answer_lines block))) ''true''
                  then ''True'' else ''False'')))"
  using question_line_not_Nil [OF assms]
  by (cases "filter has_answer_label (split_nl (strip block))")
     (simp_all add: tf_block_def index0_split_nl tf_lines_eq truthy_def answer_lines_def
      question_line_def Let_def)

theorem tf_answer_line_decides_witness:
  "strip two_answers \<noteq> []
   \<and> answer_lines two_answers = [''Answer: True'', ''Correct: False'']
   \<and> tf_block two_answers = Inr (Some (True_false ''The sky is green.'' ''False''))"
proof -
  have nonblank: "strip two_answers \<noteq> []"
    by code_simp
  have labelled: "answer_lines two_answers = [''Answer: True'', ''Correct: False'']"
    by code_simp
  have question: "question_line two_answers = ''The sky is green.''"
    by code_simp
  have no_true: "\<not> contains (lower ''Correct: False'') ''true''"
    by code_simp
  show ?thesis
    using tf_answer_line_decides [OF nonblank] nonblank labelled question no_true by simp
qed

text \<open>
  The claim as the specification states it fails: this block has no line after its
  question line, so no payload line carries a label, and yet it yields a question.
\<close>

theorem tf_label_in_question_line:
  "payload_lines answer_in_question = []
   \<and> tf_block answer_in_question
       = Inr (Some (True_false ''The sky is blue. Answer: True'' ''True''))
   \<and> parse_generated_questions (''Question 1: '' @ answer_in_question) ''True/False''
       = Inr [True_false ''The sky is blue. Answer: True'' ''True'']"
  by code_simp

lemma section_lines_no_header:
  "\<forall>l \<in> set ls. \<not> is_section_header l \<Longrightarrow> section_lines ls (m, None, cc) = (m, None, cc)"
  by (induction ls) (simp_all add: truthy_def)

lemma parse_lesson_sections_no_header:
  assumes "\<forall>l \<in> set (split_nl c). \<not> is_section_header l"
  shows "parse_lesson_sections (Some c) = []"
  using section_lines_no_header [OF assms, of "[]" "[]"]
  by (simp add: parse_lesson_sections_def truthy_def)

text \<open>
  C7: the question parser returns a list for every text and every question type, never
  an exception. A text of white space only, a text all of whose blocks are blank, and
  a text none of whose blocks yields a question give the empty list. The section
  parser is a total function that has no operation that raises; it gives the empty
  mapping for \<open>None\<close>, for the empty string, and for a text with no header line.
\<close>

theorem parsers_total:
  "(\<exists>qs. parse_generated_questions text question_type = Inr qs)
   \<and> (strip text = [] \<longrightarrow> parse_generated_questions text question_type = Inr [])
   \<and> ((\<forall>b \<in> set (re_split text). strip b = [])
        \<longrightarrow> parse_generated_questions text question_type = Inr [])
   \<and> ((\<forall>b \<in> set (re_split text). mc_block b = Inr None)
        \<longrightarrow> parse_generated_questions text ''Multiple Choice'' = Inr [])
   \<and> ((\<forall>b \<in> set (re_split text). tf_block b = Inr None)
        \<longrightarrow> parse_generated_questions text ''True/False'' = Inr [])
   \<and> parse_lesson_sections None = []
   \<and> parse_lesson_sections (Some []) = []
   \<and> ((\<forall>l \<in> set (split_nl c). \<not> is_section_header l) \<longrightarrow> parse_lesson_sections (Some c) = [])"
proof -
  have blank: "strip text = [] \<longrightarrow> parse_generated_questions text question_type = Inr []"
    using re_split_blank [of "text"] parse_all_dropped [of "text" question_type] by blast
  have mc: "(\<forall>b \<in> set (re_split text). mc_block b = Inr None)
      \<longrightarrow> parse_generated_questions text ''Multiple Choice'' = Inr []"
    by (simp add: parse_generated_questions_def for_blocks_dropped)
  have tf: "(\<forall>b \<in> set (re_split text). tf_block b = Inr None)
      \<longrightarrow> parse_generated_questions text ''True/False'' = Inr []"
    by (simp add: parse_generated_questions_def for_blocks_dropped)
  have none: "parse_lesson_sections None = []" "parse_lesson_sections (Some []) = []"
    by (simp_all add: parse_lesson_sections_def truthy_def)
  show ?thesis
    using parse_no_error [of "text" question_type] blank mc tf none
      parse_all_dropped [of "text" question_type] parse_lesson_sections_no_header [of c]
    by blast
qed

theorem parsers_total_witness:
  "parse_generated_questions [CHR '' '', nl, CHR '' ''] ''Short Answer'' = Inr []
   \<and> parse_generated_questions ''Sorry, no questions.'' ''Multiple Choice'' = Inr []
   \<and> parse_generated_questions ''Sorry, no questions.'' ''True/False'' = Inr []
   \<and> parse_lesson_sections (Some ''no header here'') = []"
proof -
  have blank: "strip [CHR '' '', nl, CHR '' ''] = []"
    by code_simp
  have blocks: "\<forall>b \<in> set (re_split [CHR '' '', nl, CHR '' '']). strip b = []"
    by code_simp
  have mc: "\<forall>b \<in> set (re_split ''Sorry, no questions.''). mc_block b = Inr None"
    by code_simp
  have tf: "\<forall>b \<in> set (re_split ''Sorry, no questions.''). tf_block b = Inr None"
    by code_simp
  have mc': "\<forall>b \<in> set (re_split [CHR '' '', nl, CHR '' '']). mc_block b = Inr None"
    by code_simp
  have tf': "\<forall>b \<in> set (re_split [CHR '' '', nl, CHR '' '']). tf_block b = Inr None"
    by code_simp
  have lines: "\<forall>l \<in> set (split_nl ''no header here''). \<not> is_section_header l"
    by code_simp
  show ?thesis
    using parsers_total [of "[CHR '' '', nl, CHR '' '']" "''Short Answer''" "''no header here''"]
      parsers_total [of "''Sorry, no questions.''" "''Multiple Choice''" "''no header here''"]
      blank blocks mc tf mc' tf' lines
    by blast
qed

section \<open>Sections\<close>

lemma dict_of_simps [simp]:
  "dict_of [] m = m"
  "dict_of ((k, v) # tr) m = dict_of tr (dict_set m k v)"
  "dict_of (tr @ tr') m = dict_of tr' (dict_of tr m)"
  by (simp_all add: dict_of_def)

lemma keys_dict_set:
  "map fst (dict_set m k v) = (if k \<in> set (map fst m) then map fst m else map fst m @ [k])"
  by (induction m) force+

lemma map_of_dict_set: "map_of (dict_set m k v) = (map_of m)(k \<mapsto> v)"
  by (induction m) auto

lemma distinct_dict_set: "distinct (map fst m) \<Longrightarrow> distinct (map fst (dict_set m k v))"
  by (simp add: keys_dict_set)

lemma distinct_dict_of: "distinct (map fst m) \<Longrightarrow> distinct (map fst (dict_of tr m))"
  by (induction tr arbitrary: m) (auto simp: distinct_dict_set)

lemma map_of_dict_of: "map_of (dict_of tr m) = map_of m ++ map_of (rev tr)"
  by (induction tr arbitrary: m) (auto simp: map_of_dict_set)

lemma keys_dict_of:
  "map fst (dict_of tr m)
     = map fst m @ filter (\<lambda>k. k \<notin> set (map fst m)) (first_occ (map fst tr))"
proof (induction tr arbitrary: m)
  case Nil
  then show ?case by simp
next
  case (Cons e tr)
  obtain k v where e: "e = (k, v)" by (cases e)
  show ?case
  proof (cases "k \<in> set (map fst m)")
    case True
    then have "filter (\<lambda>k. k \<notin> set (map fst m)) (filter (\<lambda>y. y \<noteq> k) (first_occ (map fst tr)))
             = filter (\<lambda>k. k \<notin> set (map fst m)) (first_occ (map fst tr))"
      by (auto intro: filter_cong)
    with True show ?thesis by (simp add: e Cons.IH keys_dict_set)
  next
    case False
    have "filter (\<lambda>j. j \<notin> set (map fst m @ [k])) (first_occ (map fst tr))
        = filter (\<lambda>k. k \<notin> set (map fst m)) (filter (\<lambda>y. y \<noteq> k) (first_occ (map fst tr)))"
      by (auto intro: filter_cong)
    with False show ?thesis by (simp add: e Cons.IH keys_dict_set)
  qed
qed

lemma distinct_one_entry:
  "distinct (map fst m) \<Longrightarrow> k \<in> set (map fst m) \<Longrightarrow> length (filter (\<lambda>e. fst e = k) m) = 1"
proof (induction m)
  case Nil
  then show ?case by simp
next
  case (Cons e m)
  show ?case
  proof (cases "fst e = k")
    case True
    then have "k \<notin> fst ` set m" using Cons.prems by auto
    then have "filter (\<lambda>e. fst e = k) m = []" by (auto simp: filter_empty_conv)
    with True show ?thesis by simp
  next
    case False
    then show ?thesis using Cons by auto
  qed
qed

lemma takeWhile_filter_commute:
  "(\<And>y. \<not> P y \<Longrightarrow> Q y) \<Longrightarrow> takeWhile P (filter Q ys) = filter Q (takeWhile P ys)"
  by (induction ys) auto

lemma takeWhile_first_occ:
  "takeWhile (\<lambda>j. j \<noteq> k) (first_occ ks) = first_occ (takeWhile (\<lambda>j. j \<noteq> k) ks)"
proof (induction ks)
  case Nil
  then show ?case by simp
next
  case (Cons x xs)
  show ?case
  proof (cases "x = k")
    case True
    then show ?thesis by simp
  next
    case False
    then have "takeWhile (\<lambda>j. j \<noteq> k) (filter (\<lambda>y. y \<noteq> x) (first_occ xs))
             = filter (\<lambda>y. y \<noteq> x) (takeWhile (\<lambda>j. j \<noteq> k) (first_occ xs))"
      by (intro takeWhile_filter_commute) auto
    with False show ?thesis by (simp add: Cons.IH)
  qed
qed

text \<open>The mapping of the parser is the dictionary its assignments build.\<close>

lemma section_lines_flushes:
  "(case section_lines ls (m, cur, cc) of
      (m', cur', cc') \<Rightarrow>
        if truthy cur' \<and> cc' \<noteq> [] then dict_set m' (the cur') (strip (join_nl cc')) else m')
   = dict_of (section_flushes ls cur cc) m"
  by (induction ls arbitrary: m cur cc) auto

lemma parse_lesson_sections_flushes:
  "c \<noteq> [] \<Longrightarrow> parse_lesson_sections (Some c) = dict_of (section_flushes (split_nl c) None []) []"
  using section_lines_flushes [of "split_nl c" "[]" None "[]"]
  by (simp add: parse_lesson_sections_def truthy_def)

lemma labels_have_colon: "\<forall>label \<in> set section_labels. CHR '':'' \<in> set label"
  by (simp add: section_labels_def)

lemma header_has_colon:
  assumes "is_section_header l"
  shows "CHR '':'' \<in> set l"
proof -
  obtain label where label: "label \<in> set section_labels" and c: "contains l label"
    using assms unfolding is_section_header_def by (rule bexE)
  have "CHR '':'' \<in> set label" using labels_have_colon label by (rule bspec)
  moreover have "set label \<subseteq> set l" using c by (rule contains_set)
  ultimately show ?thesis by (rule rev_subsetD)
qed

lemma colon_not_space: "\<not> isspace (CHR '':'')"
  by (simp add: isspace_def)

lemma header_strip_not_Nil:
  assumes "is_section_header l"
  shows "strip l \<noteq> []"
proof
  assume "strip l = []"
  then have "\<forall>c \<in> set l. isspace c" by (simp only: strip_Nil_iff)
  then have "isspace (CHR '':'')" using header_has_colon [OF assms] by (rule bspec)
  with colon_not_space show False by (rule notE)
qed

lemma header_truthy: "is_section_header l \<Longrightarrow> truthy (Some (strip l))"
  by (simp add: truthy_def header_strip_not_Nil)

lemma flushes_body_lines:
  "\<forall>l \<in> set B. \<not> is_section_header l \<Longrightarrow> truthy cur \<Longrightarrow>
   section_flushes (B @ R) cur cc
     = section_flushes R cur (cc @ filter (\<lambda>l. l \<noteq> []) (map strip B))"
  by (induction B arbitrary: cc) auto

lemma flushes_up_to_header:
  "is_section_header h \<Longrightarrow>
   \<exists>P. section_flushes (A @ h # R) cur cc = P @ section_flushes R (Some (strip h)) []"
proof (induction A arbitrary: cur cc)
  case Nil
  then show ?case by simp
next
  case (Cons a A)
  show ?case
  proof (cases "is_section_header a")
    case True
    obtain P where "section_flushes (A @ h # R) (Some (strip a)) []
        = P @ section_flushes R (Some (strip h)) []"
      using Cons.IH [OF Cons.prems] by blast
    then have "section_flushes ((a # A) @ h # R) cur cc
        = ((if truthy cur then [(the cur, strip (join_nl cc))] else []) @ P)
          @ section_flushes R (Some (strip h)) []"
      using True by simp
    then show ?thesis by (rule exI)
  next
    case False
    then show ?thesis
      using Cons.IH [OF Cons.prems, of cur cc] Cons.IH [OF Cons.prems, of cur "cc @ [strip a]"]
      by simp
  qed
qed

lemma flushes_keys_from:
  "(k, v) \<in> set (section_flushes ls cur cc) \<Longrightarrow>
   k = the cur \<or> (\<exists>l \<in> set ls. is_section_header l \<and> k = strip l)"
proof (induction ls arbitrary: cur cc)
  case Nil
  then show ?case by (auto split: if_splits)
next
  case (Cons l ls)
  show ?case
  proof (cases "is_section_header l")
    case True
    with Cons.prems have "k = the cur \<or> (k, v) \<in> set (section_flushes ls (Some (strip l)) [])"
      by (auto split: if_splits)
    then show ?thesis using Cons.IH True by fastforce
  next
    case False
    with Cons.prems have "(k, v) \<in> set (section_flushes ls cur (cc @ [strip l]))
        \<or> (k, v) \<in> set (section_flushes ls cur cc)"
      by (auto split: if_splits)
    then show ?thesis using Cons.IH by fastforce
  qed
qed

lemma flushes_keys_prefix:
  "\<exists>d. map fst (section_flushes ls cur cc) @ d
       = (if truthy cur then [the cur] else []) @ map strip (filter is_section_header ls)"
proof (induction ls arbitrary: cur cc)
  case Nil
  then show ?case by auto
next
  case (Cons l ls)
  show ?case
  proof (cases "is_section_header l")
    case True
    obtain d where "map fst (section_flushes ls (Some (strip l)) []) @ d
        = [strip l] @ map strip (filter is_section_header ls)"
      using Cons.IH [of "Some (strip l)" "[]"] header_truthy [OF True] by auto
    with True show ?thesis by auto
  next
    case False
    then show ?thesis using Cons.IH [of cur cc] Cons.IH [of cur "cc @ [strip l]"] by auto
  qed
qed

lemma flushes_last_occurrence:
  assumes h: "is_section_header h"
    and last: "\<forall>l \<in> set after. is_section_header l \<longrightarrow> strip l \<noteq> strip h"
    and flushed: "(\<exists>l \<in> set after. is_section_header l) \<or> section_body after \<noteq> []"
  shows "\<exists>P T. section_flushes (before @ [h] @ after) None []
            = P @ (strip h, strip (join_nl (section_body after))) # T
          \<and> strip h \<notin> fst ` set T"
proof -
  define B where "B = takeWhile (\<lambda>l. \<not> is_section_header l) after"
  define R where "R = dropWhile (\<lambda>l. \<not> is_section_header l) after"
  have after: "after = B @ R" by (simp add: B_def R_def)
  have B: "\<forall>l \<in> set B. \<not> is_section_header l" by (auto simp: B_def dest: set_takeWhileD)
  have body: "section_body after = filter (\<lambda>l. l \<noteq> []) (map strip B)"
    by (simp add: section_body_def B_def)
  obtain P where P: "section_flushes (before @ [h] @ after) None []
      = P @ section_flushes after (Some (strip h)) []"
    using flushes_up_to_header [OF h, of before after None "[]"] by auto
  have step: "section_flushes after (Some (strip h)) []
      = section_flushes R (Some (strip h)) (section_body after)"
    using flushes_body_lines [OF B header_truthy [OF h], of R "[]"]
    by (simp add: after [symmetric] body)
  show ?thesis
  proof (cases R)
    case Nil
    then have "\<not> (\<exists>l \<in> set after. is_section_header l)" using B after by simp
    then have "section_body after \<noteq> []" using flushed by blast
    then have "section_flushes R (Some (strip h)) (section_body after)
        = [(strip h, strip (join_nl (section_body after)))]"
      using Nil header_truthy [OF h] by simp
    then have "section_flushes (before @ [h] @ after) None []
        = P @ (strip h, strip (join_nl (section_body after))) # []"
      using P step by simp
    then show ?thesis by (intro exI [of _ P] exI [of _ "[]"]) simp
  next
    case (Cons h' R')
    have "R \<noteq> []" using Cons by simp
    then have "\<not> \<not> is_section_header (hd R)" unfolding R_def by (rule hd_dropWhile)
    then have h': "is_section_header h'" using Cons by simp
    define T where "T = section_flushes R' (Some (strip h')) []"
    have eq: "section_flushes R (Some (strip h)) (section_body after)
        = (strip h, strip (join_nl (section_body after))) # T"
      using Cons h' header_truthy [OF h] by (simp add: T_def)
    have "strip h \<notin> fst ` set T"
    proof
      assume "strip h \<in> fst ` set T"
      then obtain v where "(strip h, v) \<in> set T" by auto
      then have "strip h = strip h' \<or> (\<exists>l \<in> set R'. is_section_header l \<and> strip h = strip l)"
        using flushes_keys_from [of "strip h" v R' "Some (strip h')" "[]"] by (simp add: T_def)
      moreover have "set R \<subseteq> set after" by (auto simp: after)
      ultimately show False using last h' Cons by auto
    qed
    moreover have "section_flushes (before @ [h] @ after) None []
        = P @ (strip h, strip (join_nl (section_body after))) # T"
      using P step eq by simp
    ultimately show ?thesis by (intro exI [of _ P] exI [of _ T]) simp
  qed
qed

lemma flushes_up_to_header_keys:
  "is_section_header h \<Longrightarrow>
   \<exists>P. section_flushes (A @ h # R) cur cc = P @ section_flushes R (Some (strip h)) []
       \<and> (\<forall>e \<in> set P. fst e = the cur \<or> (\<exists>l \<in> set A. is_section_header l \<and> fst e = strip l))"
proof (induction A arbitrary: cur cc)
  case Nil
  then show ?case by simp
next
  case (Cons a A)
  show ?case
  proof (cases "is_section_header a")
    case True
    obtain P where P: "section_flushes (A @ h # R) (Some (strip a)) []
        = P @ section_flushes R (Some (strip h)) []"
      and keys: "\<forall>e \<in> set P. fst e = strip a \<or> (\<exists>l \<in> set A. is_section_header l \<and> fst e = strip l)"
      using Cons.IH [OF Cons.prems, of "Some (strip a)" "[]"] by auto
    define F where "F = (if truthy cur then [(the cur, strip (join_nl cc))] else [])"
    have "section_flushes ((a # A) @ h # R) cur cc = (F @ P) @ section_flushes R (Some (strip h)) []"
      using True P by (simp add: F_def)
    moreover have "\<forall>e \<in> set (F @ P). fst e = the cur
        \<or> (\<exists>l \<in> set (a # A). is_section_header l \<and> fst e = strip l)"
      using keys True by (auto simp: F_def)
    ultimately show ?thesis by blast
  next
    case False
    obtain P where P: "section_flushes ((a # A) @ h # R) cur cc
        = P @ section_flushes R (Some (strip h)) []"
      and keys: "\<forall>e \<in> set P. fst e = the cur \<or> (\<exists>l \<in> set A. is_section_header l \<and> fst e = strip l)"
      using False Cons.IH [OF Cons.prems, of cur cc] Cons.IH [OF Cons.prems, of cur "cc @ [strip a]"]
      by (cases "truthy cur \<and> strip a \<noteq> []") auto
    have "\<forall>e \<in> set P. fst e = the cur
        \<or> (\<exists>l \<in> set (a # A). is_section_header l \<and> fst e = strip l)"
      using keys by auto
    with P show ?thesis by blast
  qed
qed

lemma flushes_unflushed_tail:
  assumes "\<not> ((\<exists>l \<in> set after. is_section_header l) \<or> section_body after \<noteq> [])"
    and "truthy cur"
  shows "section_flushes after cur [] = []"
proof -
  have nohdr: "\<forall>l \<in> set after. \<not> is_section_header l" using assms by blast
  then have tw: "takeWhile (\<lambda>l. \<not> is_section_header l) after = after"
    by (simp add: takeWhile_eq_all_conv)
  have "section_body after = filter (\<lambda>l. l \<noteq> []) (map strip after)"
    by (simp only: section_body_def tw)
  moreover have "section_body after = []" using assms by blast
  ultimately have "filter (\<lambda>l. l \<noteq> []) (map strip after) = []"
    by simp
  then show ?thesis
    using flushes_body_lines [OF nohdr assms(2), of "[]" "[]"] by simp
qed

lemma flushes_previous_occurrence:
  assumes h': "is_section_header h'" and h: "is_section_header h"
    and same: "strip h' = strip h"
    and mid: "\<forall>l \<in> set mid. is_section_header l \<longrightarrow> strip l \<noteq> strip h"
    and unflushed: "\<not> ((\<exists>l \<in> set after. is_section_header l) \<or> section_body after \<noteq> [])"
  shows "\<exists>P T. section_flushes (before @ [h'] @ mid @ [h] @ after) None []
            = P @ (strip h, strip (join_nl (section_body (mid @ [h] @ after)))) # T
          \<and> strip h \<notin> fst ` set T"
proof -
  define B where "B = takeWhile (\<lambda>l. \<not> is_section_header l) mid"
  define M where "M = dropWhile (\<lambda>l. \<not> is_section_header l) mid"
  have mid_eq: "mid = B @ M" by (simp add: B_def M_def)
  have B: "\<forall>l \<in> set B. \<not> is_section_header l" by (auto simp: B_def dest: set_takeWhileD)
  have tw: "takeWhile (\<lambda>l. \<not> is_section_header l) (mid @ [h] @ after) = B"
  proof (cases M)
    case Nil
    then have "mid = B" using mid_eq by simp
    then show ?thesis using B h by (simp add: takeWhile_append)
  next
    case (Cons m M')
    have "M \<noteq> []" using Cons by simp
    then have "\<not> \<not> is_section_header (hd M)" unfolding M_def by (rule hd_dropWhile)
    then have "is_section_header m" using Cons by simp
    then show ?thesis using B Cons by (simp add: mid_eq takeWhile_append)
  qed
  define bd where "bd = section_body (mid @ [h] @ after)"
  have body: "bd = filter (\<lambda>l. l \<noteq> []) (map strip B)"
    using tw by (simp add: bd_def section_body_def)
  define v where "v = strip (join_nl bd)"
  obtain P where P: "section_flushes (before @ [h'] @ mid @ [h] @ after) None []
      = P @ section_flushes (mid @ [h] @ after) (Some (strip h)) []"
    using flushes_up_to_header [OF h', of before "mid @ [h] @ after" None "[]"] same by auto
  have step: "section_flushes (mid @ [h] @ after) (Some (strip h)) []
      = section_flushes (M @ [h] @ after) (Some (strip h)) bd"
    using flushes_body_lines [OF B header_truthy [OF h], of "M @ [h] @ after" "[]"]
    by (simp add: mid_eq body)
  have tail: "section_flushes after (Some (strip h)) [] = []"
    using flushes_unflushed_tail [OF unflushed header_truthy [OF h]] .
  have "\<exists>T. section_flushes (M @ [h] @ after) (Some (strip h)) bd
          = (strip h, v) # T \<and> strip h \<notin> fst ` set T"
  proof (cases M)
    case Nil
    then show ?thesis using h header_truthy [OF h] tail by (simp add: v_def)
  next
    case (Cons m M')
    have "M \<noteq> []" using Cons by simp
    then have "\<not> \<not> is_section_header (hd M)" unfolding M_def by (rule hd_dropWhile)
    then have m: "is_section_header m" using Cons by simp
    obtain Q where Q: "section_flushes (M' @ h # after) (Some (strip m)) []
        = Q @ section_flushes after (Some (strip h)) []"
      and keys: "\<forall>e \<in> set Q. fst e = the (Some (strip m))
          \<or> (\<exists>l \<in> set M'. is_section_header l \<and> fst e = strip l)"
      using flushes_up_to_header_keys [OF h, of M' after "Some (strip m)" "[]"] by blast
    have sub: "set M \<subseteq> set mid" by (auto simp: mid_eq)
    have "strip h \<notin> fst ` set Q"
    proof
      assume "strip h \<in> fst ` set Q"
      then obtain e where e: "e \<in> set Q" "fst e = strip h" by auto
      from keys e(1) have "fst e = strip m \<or> (\<exists>l \<in> set M'. is_section_header l \<and> fst e = strip l)"
        by simp
      then have "strip h = strip m \<or> (\<exists>l \<in> set M'. is_section_header l \<and> strip h = strip l)"
        using e(2) by simp
      then show False using mid m sub Cons by auto
    qed
    moreover have "section_flushes (M @ [h] @ after) (Some (strip h)) bd
        = (strip h, v) # Q"
      using Cons m header_truthy [OF h] Q tail by (simp add: v_def)
    ultimately show ?thesis by blast
  qed
  then obtain T where T: "section_flushes (M @ [h] @ after) (Some (strip h)) bd
        = (strip h, v) # T"
    and notin: "strip h \<notin> fst ` set T" by blast
  have "section_flushes (before @ [h'] @ mid @ [h] @ after) None [] = P @ (strip h, v) # T"
    using P step T by simp
  then show ?thesis using notin unfolding v_def bd_def by blast
qed

text \<open>
  The entry of a key whose last assignment is known: its value is the one assigned
  last, it is the only entry of the key, and the keys before it are the header texts
  before the first header line of the key, in the order of their first occurrence.
\<close>

lemma entry_of_last_flush:
  assumes c: "c \<noteq> []"
    and tr: "section_flushes (split_nl c) None [] = P @ (k, v) # T"
    and T: "k \<notin> fst ` set T"
  shows "length (filter (\<lambda>e. fst e = k) (parse_lesson_sections (Some c))) = 1
       \<and> takeWhile (\<lambda>j. j \<noteq> k) (map fst (parse_lesson_sections (Some c)))
           = first_occ (takeWhile (\<lambda>j. j \<noteq> k)
               (map strip (filter is_section_header (split_nl c))))
       \<and> map_of (parse_lesson_sections (Some c)) k = Some v"
proof -
  define D where "D = parse_lesson_sections (Some c)"
  have D: "D = dict_of (P @ (k, v) # T) []"
    by (simp add: D_def tr [symmetric] parse_lesson_sections_flushes [OF c])
  have "map_of (rev T) k = None" using T by (simp add: map_of_eq_None_iff)
  moreover have "map_of D = map_of [] ++ map_of (rev (P @ (k, v) # T))"
    unfolding D by (rule map_of_dict_of)
  ultimately have val: "map_of D k = Some v"
    by (simp add: map_add_def)
  have dist: "distinct (map fst D)" unfolding D by (rule distinct_dict_of) simp
  have "(k, v) \<in> set D" using val by (rule map_of_SomeD)
  then have mem: "k \<in> set (map fst D)" by force
  have one: "length (filter (\<lambda>e. fst e = k) D) = 1"
    using dist mem by (rule distinct_one_entry)
  have keys: "map fst D = first_occ (map fst (P @ (k, v) # T))"
    unfolding D by (simp only: keys_dict_of) simp
  obtain d where d: "map fst (P @ (k, v) # T) @ d
      = map strip (filter is_section_header (split_nl c))"
    using flushes_keys_prefix [of "split_nl c" None "[]"] by (auto simp: tr truthy_def)
  have "k \<in> set (map fst (P @ (k, v) # T))" by simp
  then have "takeWhile (\<lambda>j. j \<noteq> k) (map fst (P @ (k, v) # T) @ d)
      = takeWhile (\<lambda>j. j \<noteq> k) (map fst (P @ (k, v) # T))"
    by (intro takeWhile_append1 [of k]) auto
  then have pos: "takeWhile (\<lambda>j. j \<noteq> k) (map fst D)
      = first_occ (takeWhile (\<lambda>j. j \<noteq> k)
          (map strip (filter is_section_header (split_nl c))))"
    unfolding keys takeWhile_first_occ d by simp
  show ?thesis using val one pos by (simp add: D_def)
qed

text \<open>
  C10, as the code has it. Let the header text \<open>strip h\<close> occur on more than one line of
  the text, \<open>h\<close> being the last of these lines and \<open>h'\<close> the one before it. Then the
  mapping has exactly one entry under \<open>strip h\<close>, and the keys before it are the header
  texts that occur before the first header \<open>strip h\<close>, in the order of their first
  occurrence. Its body is the content after the last occurrence \<open>h\<close> when a header line
  or a non-empty line follows \<open>h\<close>. Otherwise the section of \<open>h\<close> ends the text with no
  content and is not flushed, and the body is the content after the occurrence \<open>h'\<close>
  before it.
\<close>

theorem repeated_header_entry:
  assumes c: "c \<noteq> []"
    and lines: "split_nl c = before @ [h'] @ mid @ [h] @ after"
    and h': "is_section_header h'"
    and h: "is_section_header h"
    and same: "strip h' = strip h"
    and mid: "\<forall>l \<in> set mid. is_section_header l \<longrightarrow> strip l \<noteq> strip h"
    and last: "\<forall>l \<in> set after. is_section_header l \<longrightarrow> strip l \<noteq> strip h"
  shows "length (filter (\<lambda>e. fst e = strip h) (parse_lesson_sections (Some c))) = 1
       \<and> takeWhile (\<lambda>k. k \<noteq> strip h) (map fst (parse_lesson_sections (Some c)))
           = first_occ (takeWhile (\<lambda>k. k \<noteq> strip h)
               (map strip (filter is_section_header (split_nl c))))
       \<and> map_of (parse_lesson_sections (Some c)) (strip h)
           = Some (strip (join_nl (section_body
               (if (\<exists>l \<in> set after. is_section_header l) \<or> section_body after \<noteq> []
                then after else mid @ [h] @ after))))"
proof (cases "(\<exists>l \<in> set after. is_section_header l) \<or> section_body after \<noteq> []")
  case True
  obtain P T where "section_flushes ((before @ [h'] @ mid) @ [h] @ after) None []
        = P @ (strip h, strip (join_nl (section_body after))) # T"
    and T: "strip h \<notin> fst ` set T"
    using flushes_last_occurrence [OF h last True, of "before @ [h'] @ mid"] by blast
  then have tr: "section_flushes (split_nl c) None []
      = P @ (strip h, strip (join_nl (section_body after))) # T"
    by (simp add: lines)
  show ?thesis using entry_of_last_flush [OF c tr T] True by simp
next
  case False
  obtain P T where "section_flushes (before @ [h'] @ mid @ [h] @ after) None []
        = P @ (strip h, strip (join_nl (section_body (mid @ [h] @ after)))) # T"
    and T: "strip h \<notin> fst ` set T"
    using flushes_previous_occurrence [OF h' h same mid False, of before] by blast
  then have tr: "section_flushes (split_nl c) None []
      = P @ (strip h, strip (join_nl (section_body (mid @ [h] @ after)))) # T"
    by (simp only: lines)
  show ?thesis using entry_of_last_flush [OF c tr T] False by simp
qed

theorem repeated_header_entry_witness:
  "parse_lesson_sections (Some overview_twice)
     = [(''Lesson Procedure:'', ''baz''), (''Overview:'', ''bar'')]
   \<and> length (filter (\<lambda>e. fst e = ''Overview:'') (parse_lesson_sections (Some overview_twice))) = 1
   \<and> takeWhile (\<lambda>k. k \<noteq> ''Overview:'') (map fst (parse_lesson_sections (Some overview_twice)))
       = [''Lesson Procedure:'']
   \<and> map_of (parse_lesson_sections (Some overview_twice)) ''Overview:'' = Some ''bar''
   \<and> length (filter (\<lambda>e. fst e = ''Overview:'') (parse_lesson_sections (Some overview_trailing))) = 1
   \<and> takeWhile (\<lambda>k. k \<noteq> ''Overview:'') (map fst (parse_lesson_sections (Some overview_trailing)))
       = []
   \<and> map_of (parse_lesson_sections (Some overview_trailing)) ''Overview:'' = Some ''foo''"
proof -
  have c: "overview_twice \<noteq> []"
    by code_simp
  have lines: "split_nl overview_twice
      = [''Lesson Procedure:'', ''baz''] @ [''Overview:''] @ [''foo''] @ [''Overview:''] @ [''bar'']"
    by code_simp
  have h: "is_section_header ''Overview:''"
    by code_simp
  have same: "strip ''Overview:'' = strip ''Overview:''"
    by simp
  have mid: "\<forall>l \<in> set [''foo'']. is_section_header l \<longrightarrow> strip l \<noteq> strip ''Overview:''"
    by code_simp
  have last: "\<forall>l \<in> set [''bar'']. is_section_header l \<longrightarrow> strip l \<noteq> strip ''Overview:''"
    by code_simp
  have c': "overview_trailing \<noteq> []"
    by code_simp
  have lines': "split_nl overview_trailing = [] @ [''Overview:''] @ [''foo''] @ [''Overview:''] @ []"
    by code_simp
  have last': "\<forall>l \<in> set []. is_section_header l \<longrightarrow> strip l \<noteq> strip ''Overview:''"
    by simp
  have key: "strip ''Overview:'' = ''Overview:''"
    by code_simp
  have body: "strip (join_nl (section_body
      (if (\<exists>l \<in> set [''bar'']. is_section_header l) \<or> section_body [''bar''] \<noteq> []
       then [''bar''] else [''foo''] @ [''Overview:''] @ [''bar'']))) = ''bar''"
    by code_simp
  have body': "strip (join_nl (section_body
      (if (\<exists>l \<in> set []. is_section_header l) \<or> section_body [] \<noteq> []
       then [] else [''foo''] @ [''Overview:''] @ []))) = ''foo''"
    by code_simp
  have pos: "first_occ (takeWhile (\<lambda>k. k \<noteq> ''Overview:'')
      (map strip (filter is_section_header (split_nl overview_twice)))) = [''Lesson Procedure:'']"
    by code_simp
  have pos': "first_occ (takeWhile (\<lambda>k. k \<noteq> ''Overview:'')
      (map strip (filter is_section_header (split_nl overview_trailing)))) = []"
    by code_simp
  have whole: "parse_lesson_sections (Some overview_twice)
      = [(''Lesson Procedure:'', ''baz''), (''Overview:'', ''bar'')]"
    by code_simp
  show ?thesis
    using repeated_header_entry [OF c lines h h same mid last]
      repeated_header_entry [OF c' lines' h h same mid last'] whole
    unfolding key body body' pos pos' by simp
qed

text \<open>
  The claim as stated fails when the last occurrence of the header ends the text with
  no content: nothing is accumulated after the second \<open>Overview:\<close>, and the entry keeps
  the body \<open>foo\<close> of the first.
\<close>

theorem trailing_header_keeps_old_body:
  "split_nl overview_trailing = [''Overview:'', ''foo''] @ [''Overview:''] @ []
   \<and> strip (join_nl (section_body [])) = []
   \<and> parse_lesson_sections (Some overview_trailing) = [(''Overview:'', ''foo'')]"
  by code_simp

text \<open>
  C6: the text \<open>Overview:\nfoo\nLesson Procedure:\nbar\<close> gives the two entries
  \<open>Overview:\<close> with body \<open>foo\<close> and \<open>Lesson Procedure:\<close> with body \<open>bar\<close>, in this order.
\<close>

theorem parse_overview_procedure:
  "parse_lesson_sections
     (Some (''Overview:'' @ [nl] @ ''foo'' @ [nl] @ ''Lesson Procedure:'' @ [nl] @ ''bar''))
   = [(''Overview:'', ''foo''), (''Lesson Procedure:'', ''bar'')]"
  by code_simp

text \<open>
  C3: in multiple choice mode, the block with the question \<open>Capital of UK?\<close> and the
  option lines \<open>a) Paris\<close>, \<open>b) *London\<close>, \<open>c) Rome\<close> gives exactly one question, with
  the options Paris, London, Rome and the correct answer London. The block is given
  after a \<open>Question 1:\<close> marker, after a numbered marker on a new line, and alone.
\<close>

theorem parse_capital_of_uk:
  "parse_generated_questions
     (''Question 1: Capital of UK?'' @ [nl] @ ''a) Paris'' @ [nl] @ ''b) *London'' @ [nl] @ ''c) Rome'')
     ''Multiple Choice''
   = Inr [Multiple_choice ''Capital of UK?'' [''Paris'', ''London'', ''Rome''] ''London'']
   \<and> parse_generated_questions
     ([nl] @ ''1. Capital of UK?'' @ [nl] @ ''a) Paris'' @ [nl] @ ''b) *London'' @ [nl] @ ''c) Rome'')
     ''Multiple Choice''
   = Inr [Multiple_choice ''Capital of UK?'' [''Paris'', ''London'', ''Rome''] ''London'']
   \<and> parse_generated_questions
     (''Capital of UK?'' @ [nl] @ ''a) Paris'' @ [nl] @ ''b) *London'' @ [nl] @ ''c) Rome'')
     ''Multiple Choice''
   = Inr [Multiple_choice ''Capital of UK?'' [''Paris'', ''London'', ''Rome''] ''London'']"
  by code_simp

section \<open>The history of lessons\<close>

lemma history_cong:
  "\<forall>b \<in> set (generated_lessons s). h' ! b = store s ! b \<Longrightarrow>
   map (\<lambda>a. h' ! a) (generated_lessons s) = history s"
  by (simp add: history_def)

lemma commit_lesson_history:
  assumes "store_wf s"
  shows "history (commit_lesson s l) = history s @ [l]" and "store_wf (commit_lesson s l)"
proof -
  have old: "\<forall>b \<in> set (generated_lessons s). (store s @ [l, l]) ! b = store s ! b"
    using assms by (auto simp: store_wf_def nth_append)
  show "history (commit_lesson s l) = history s @ [l]"
    using history_cong [OF old]
    by (simp add: commit_lesson_def alloc_def history_def nth_append)
  show "store_wf (commit_lesson s l)"
    using assms by (fastforce simp: commit_lesson_def alloc_def store_wf_def)
qed

lemma select_history_history:
  assumes "store_wf s"
  shows "history (select_history s idx) = history s" and "store_wf (select_history s idx)"
proof -
  show "history (select_history s idx) = history s"
    using assms by (auto simp: select_history_def alloc_def history_def store_wf_def nth_append)
  show "store_wf (select_history s idx)"
    using assms by (fastforce simp: select_history_def alloc_def store_wf_def)
qed

lemma edit_sections_history:
  assumes "store_wf s"
  shows "history (edit_sections s edits) = history s"
    and "store_wf (edit_sections s edits)"
proof -
  show "history (edit_sections s edits) = history s"
    using assms
    by (auto simp: edit_sections_def history_def store_wf_def Let_def nth_list_update
        split: option.splits)
  show "store_wf (edit_sections s edits)"
    using assms by (auto simp: edit_sections_def store_wf_def Let_def split: option.splits)
qed

lemma lesson_step_history:
  assumes "store_wf s"
  shows "history (lesson_step s e) = history s @ committed e \<and> store_wf (lesson_step s e)"
proof (cases e)
  case (Generate l)
  then show ?thesis using commit_lesson_history [OF assms] by (simp add: committed_def)
next
  case (Select idx)
  then show ?thesis using select_history_history [OF assms] by (simp add: committed_def)
next
  case (Edit edits)
  then show ?thesis using edit_sections_history [OF assms] by (simp add: committed_def)
next
  case (View m)
  then show ?thesis using assms by (simp add: committed_def set_view_def history_def store_wf_def)
qed

lemma run_history:
  "store_wf s \<Longrightarrow>
   history (foldl lesson_step s evs) = history s @ concat (map committed evs)
   \<and> store_wf (foldl lesson_step s evs)"
proof (induction evs arbitrary: s)
  case Nil
  then show ?case by simp
next
  case (Cons e evs)
  have 1: "history (lesson_step s e) = history s @ committed e" and 2: "store_wf (lesson_step s e)"
    using lesson_step_history [OF Cons.prems] by auto
  show ?case using Cons.IH [OF 2] 1 by simp
qed

lemma initial_wf: "store_wf initial_lesson_session" "history initial_lesson_session = []"
  by (simp_all add: store_wf_def initial_lesson_session_def history_def)

text \<open>
  C8: a lesson committed to the history stays as it was at commit time. Whatever the
  session did before (\<open>evs1\<close>) and whatever it does after the commit of \<open>l\<close> (\<open>evs2\<close>:
  edits and regenerations of sections of the current lesson, selections from the
  history, further commits), the history holds the committed lessons with the values
  they were committed with, \<open>l\<close> among them at its place.
\<close>

theorem history_is_copy_on_commit:
  "history (foldl lesson_step initial_lesson_session (evs1 @ [Generate l] @ evs2))
     = concat (map committed evs1) @ [l] @ concat (map committed evs2)"
proof -
  have run: "history (foldl lesson_step initial_lesson_session evs) = concat (map committed evs)"
    for evs
    using run_history [OF initial_wf(1), of evs] by (simp add: initial_wf(2))
  show ?thesis unfolding run by (simp add: committed_def)
qed

theorem history_is_copy_on_commit_witness:
  "history (foldl lesson_step initial_lesson_session
       ([] @ [Generate sample_lesson] @ [Edit [(''Overview:'', ''bar'')]]))
     = [sample_lesson]
   \<and> content sample_lesson = ''Overview:'' @ [nl] @ ''foo''
   \<and> map_option (\<lambda>a. content (store (foldl lesson_step initial_lesson_session
          [Generate sample_lesson, Edit [(''Overview:'', ''bar'')]]) ! a))
        (current_lesson (foldl lesson_step initial_lesson_session
          [Generate sample_lesson, Edit [(''Overview:'', ''bar'')]]))
     = Some (''Overview:'' @ [nl] @ ''bar'' @ [nl])"
proof -
  have edited: "map_option (\<lambda>a. content (store (foldl lesson_step initial_lesson_session
          [Generate sample_lesson, Edit [(''Overview:'', ''bar'')]]) ! a))
        (current_lesson (foldl lesson_step initial_lesson_session
          [Generate sample_lesson, Edit [(''Overview:'', ''bar'')]]))
     = Some (''Overview:'' @ [nl] @ ''bar'' @ [nl])"
    by code_simp
  have original: "content sample_lesson = ''Overview:'' @ [nl] @ ''foo''"
    by (simp add: sample_lesson_def)
  show ?thesis
    using history_is_copy_on_commit [of "[]" sample_lesson "[Edit [(''Overview:'', ''bar'')]]"]
      edited original
    by (simp add: committed_def)
qed

section \<open>The score of the quiz\<close>

lemma quiz_wf_finite: "quiz_wf st \<Longrightarrow> finite (answered_questions st)"
  unfolding quiz_wf_def using finite_subset by blast

lemma quiz_wf_score_invariant:
  assumes "quiz_wf st"
  shows "score_invariant st"
proof -
  have "card (answered_questions st) \<le> card {0 ..< int (length (generated_questions st))}"
    using assms by (intro card_mono) (auto simp: quiz_wf_def)
  then show ?thesis using assms by (simp add: score_invariant_def quiz_wf_def)
qed

lemma list_assign_nat: "i < length xs \<Longrightarrow> list_assign xs (int i) v = Inr (xs[i := v])"
  by (simp add: list_assign_def)

lemma load_questions_wf: "quiz_wf st \<Longrightarrow> quiz_wf (load_questions st response question_type)"
  by (auto simp: load_questions_def quiz_wf_def split: option.splits sum.splits)

lemma clear_questions_wf: "quiz_wf (clear_questions st)"
  by (simp add: clear_questions_def quiz_wf_def)

lemma card_remove_score:
  assumes "finite A" and "x \<in> A" and "s \<le> int (card A)"
  shows "max 0 (s - 1) \<le> int (card (A - {x}))"
proof -
  have "card (A - {x}) = card A - 1" using assms by simp
  moreover have "0 < card A" using assms by (auto simp: card_gt_0_iff)
  ultimately show ?thesis using assms by simp
qed

lemma refresh_question_wf:
  assumes "quiz_wf st"
  shows "quiz_wf (refresh_question st i model question_type)"
proof -
  have fin: "finite (answered_questions st)" using assms by (rule quiz_wf_finite)
  have dec: "int i \<in> answered_questions st \<Longrightarrow>
      max 0 (current_score st - 1) \<le> int (card (answered_questions st - {int i}))"
    using card_remove_score [OF fin] assms by (simp add: quiz_wf_def)
  show ?thesis
    using assms dec
    by (auto simp: refresh_question_def read_name_def quiz_wf_def list_assign_nat
        split: option.splits sum.splits)
qed

lemma submit_answer_wf:
  assumes "quiz_wf st"
  shows "quiz_wf (submit_answer st i user_answer)"
proof -
  have fin: "finite (answered_questions st)" using assms by (rule quiz_wf_finite)
  show ?thesis
    using assms fin
    by (auto simp: submit_answer_def submit_body_def quiz_wf_def Let_def split: question.splits)
qed

lemma show_sample_answer_wf:
  assumes "quiz_wf st"
  shows "quiz_wf (show_sample_answer st i)"
proof -
  have fin: "finite (answered_questions st)" using assms by (rule quiz_wf_finite)
  have "card (answered_questions st) \<le> card (insert (int i) (answered_questions st))"
    using fin by (simp add: card_insert_le)
  then show ?thesis
    using assms by (auto simp: show_sample_answer_def quiz_wf_def split: question.splits)
qed

lemma quiz_step_wf: "quiz_wf st \<Longrightarrow> quiz_wf (quiz_step st e)"
  by (cases e)
     (simp_all add: load_questions_wf clear_questions_wf refresh_question_wf submit_answer_wf
        show_sample_answer_wf)

lemma quiz_run_wf: "quiz_wf st \<Longrightarrow> quiz_wf (foldl quiz_step st evs)"
  by (induction evs arbitrary: st) (simp_all add: quiz_step_wf)

lemma initial_quiz_wf: "quiz_wf initial_quiz_state"
  by (simp add: quiz_wf_def initial_quiz_state_def)

text \<open>
  The handlers of the page "Questions" keep the invariant: after any sequence of
  generating, clearing, refreshing, submitting and showing a sample answer, the score
  is at most the number of answered questions, which is at most \<open>total_questions\<close>.
\<close>

lemma page_handlers_keep_score_invariant:
  "score_invariant (foldl quiz_step initial_quiz_state evs)"
  by (rule quiz_wf_score_invariant) (rule quiz_run_wf, rule initial_quiz_wf)

text \<open>
  C1: the invariant \<open>current_score \<le> |answered_questions| \<le> total_questions\<close> is lost by
  \<open>regenerate_single_question\<close>, which removes the index from \<open>answered_questions\<close> and
  leaves the score. After one question is loaded and answered correctly, regenerating
  it gives a score of 1 with no answered question; answering the new question
  correctly gives a score of 2 out of 1.
\<close>

theorem regenerate_single_question_keeps_score:
  "current_score quiz_one_correct = 1
   \<and> answered_questions quiz_one_correct = {0}
   \<and> current_score (regenerate_single_question quiz_one_correct (Some sky) ''True/False'' 0) = 1
   \<and> answered_questions (regenerate_single_question quiz_one_correct (Some sky) ''True/False'' 0) = {}
   \<and> \<not> score_invariant (regenerate_single_question quiz_one_correct (Some sky) ''True/False'' 0)
   \<and> current_score (submit_answer
        (regenerate_single_question quiz_one_correct (Some sky) ''True/False'' 0) 0 ''True'') = 2
   \<and> total_questions (submit_answer
        (regenerate_single_question quiz_one_correct (Some sky) ''True/False'' 0) 0 ''True'') = 1"
  by code_simp

text \<open>
  What lines 625 to 635 of the refresh handler do once a response is there: the first
  parsed question replaces \<open>generated_questions[i]\<close>, \<open>i\<close> leaves \<open>answered_questions\<close>, and
  the score goes down by one, not below zero, when \<open>i\<close> was answered.
\<close>

lemma refresh_question_bound_model:
  assumes "i < length (generated_questions st)"
    and "parse_generated_questions response question_type = Inr (q # qs)"
  shows "refresh_question st i (Some (Some response)) question_type
       = st\<lparr>generated_questions := (generated_questions st)[i := q],
            answered_questions := answered_questions st - {int i},
            current_score := (if int i \<in> answered_questions st
                              then max 0 (current_score st - 1) else current_score st)\<rparr>"
  using assms by (simp add: refresh_question_def read_name_def list_assign_nat)

text \<open>
  C2: regenerating an answered question is to replace it, take its index out of the
  answered ones and lower the score. Neither implementation does so. A click on a
  refresh button of the page changes nothing, whatever the state: the handler reads
  the unbound name \<open>model\<close> and ends in its \<open>except\<close> clause. In the example of two loaded
  questions with question 0 answered correctly, 0 stays answered and the score stays
  1 after the click; \<open>regenerate_single_question\<close> replaces the question and removes
  0 from the answered ones, but leaves the score at 1.
\<close>

theorem refresh_click_changes_nothing:
  "quiz_step st (Refresh i question_type) = st
   \<and> answered_questions quiz_first_correct = {0}
   \<and> current_score quiz_first_correct = 1
   \<and> answered_questions (quiz_step quiz_first_correct (Refresh 0 ''True/False'')) = {0}
   \<and> current_score (quiz_step quiz_first_correct (Refresh 0 ''True/False'')) = 1
   \<and> answered_questions
        (regenerate_single_question quiz_first_correct (Some sky) ''True/False'' 0) = {}
   \<and> current_score
        (regenerate_single_question quiz_first_correct (Some sky) ''True/False'' 0) = 1"
proof -
  have click: "quiz_step s (Refresh j t) = s" for s j t
    by (simp add: refresh_question_def read_name_def)
  have answered: "answered_questions quiz_first_correct = {0}"
    by code_simp
  have score: "current_score quiz_first_correct = 1"
    by code_simp
  have regenerated: "answered_questions
        (regenerate_single_question quiz_first_correct (Some sky) ''True/False'' 0) = {}"
      "current_score
        (regenerate_single_question quiz_first_correct (Some sky) ''True/False'' 0) = 1"
    by code_simp+
  show ?thesis
    unfolding click using answered score regenerated by simp
qed

end
